theory Spec2Isabelle
  imports Complex_Main "HOL-Library.Char_ord" "HOL-Library.List_Lexorder"
    "HOL-Library.Product_Lexorder"
begin

section \<open>Strings\<close>

text \<open>
  Python strings are modelled by \<open>string\<close>, one \<open>char\<close> per character. The
  operations below are those of \<open>str\<close> on ASCII text: \<open>lower\<close> maps \<open>A\<close> to \<open>Z\<close>
  onto \<open>a\<close> to \<open>z\<close> and leaves every other character alone, \<open>strip\<close> removes
  the ASCII white space characters from both ends, and \<open>a in b\<close> is the substring test.
\<close>

definition lower_char :: "char \<Rightarrow> char" where
  "lower_char c =
     (let n = (of_char c :: nat) in if 65 \<le> n \<and> n \<le> 90 then char_of (n + 32) else c)"

definition lower :: "string \<Rightarrow> string" where
  "lower s = map lower_char s"

definition is_space :: "char \<Rightarrow> bool" where
  "is_space c = ((of_char c :: nat) \<in> {9, 10, 11, 12, 13, 28, 29, 30, 31, 32})"

definition strip :: "string \<Rightarrow> string" where
  "strip s = rev (dropWhile is_space (rev (dropWhile is_space s)))"

fun starts_with :: "string \<Rightarrow> string \<Rightarrow> bool" where
  "starts_with s [] = True"
| "starts_with [] (p # ps) = False"
| "starts_with (c # cs) (p # ps) = (c = p \<and> starts_with cs ps)"

text \<open>\<open>str_in a b\<close> is Python's \<open>a in b\<close> on two strings.\<close>

fun str_in :: "string \<Rightarrow> string \<Rightarrow> bool" where
  "str_in a [] = (a = [])"
| "str_in a (c # cs) = (starts_with (c # cs) a \<or> str_in a cs)"

section \<open>category\_mapper.py\<close>

definition steel_export_group :: string where
  "steel_export_group = ''steel_export_group''"

definition coal_import_group :: string where
  "coal_import_group = ''coal_import_group''"

definition container_group :: string where
  "container_group = ''container_group''"

definition general_group :: string where
  "general_group = ''general_group''"

text \<open>
  The dictionary \<open>CATEGORY_TO_GROUP\<close>, as an association list in the order of the
  source: a Python dictionary iterates in insertion order, and the partial match below
  depends on that order.
\<close>

definition CATEGORY_TO_GROUP :: "(string \<times> string) list" where
  "CATEGORY_TO_GROUP =
    [(''handy'', steel_export_group),
     (''handymax'', steel_export_group),
     (''supramax'', steel_export_group),
     (''bdi'', steel_export_group),
     (''steel'', steel_export_group),
     (''baltic'', steel_export_group),
     (''panamax'', coal_import_group),
     (''capesize'', coal_import_group),
     (''coal'', coal_import_group),
     (''iron ore'', coal_import_group),
     (''ironore'', coal_import_group),
     (''container'', container_group),
     (''scfi'', container_group),
     (''shipping schedule'', container_group),
     (''boxship'', container_group),
     (''teu'', container_group),
     (''bulk'', general_group),
     (''bulker'', general_group),
     (''dry bulk'', general_group),
     (''freight'', general_group),
     (''rates'', general_group),
     (''charter'', general_group),
     (''tonnage'', general_group),
     (''vessel'', general_group),
     (''shipping'', general_group),
     (''maritime'', general_group),
     (''port'', general_group),
     (''cargo'', general_group),
     (''demand'', general_group),
     (''supply'', general_group)]"

text \<open>
  The inner loop of \<open>map_categories_to_groups\<close>: the group of the first entry of the
  table whose key is a substring of \<open>key\<close> or has \<open>key\<close> as a substring
  (\<open>break\<close> after the first hit), \<open>None\<close> when the loop ends without one.
\<close>

fun partial_match :: "(string \<times> string) list \<Rightarrow> string \<Rightarrow> string option" where
  "partial_match [] key = None"
| "partial_match ((category_key, grp) # rest) key =
     (if str_in category_key key \<or> str_in key category_key then Some grp
      else partial_match rest key)"

text \<open>
  One iteration of the outer loop. The set \<open>groups\<close> is kept as a duplicate-free list
  (\<open>List.insert\<close> adds an element that is absent); \<open>list(groups)\<close> returns its
  elements in an order Python does not specify, so the statements below speak of a
  single-element result or of the set of elements.
\<close>

definition map_category :: "string \<Rightarrow> string list \<Rightarrow> string list" where
  "map_category cat groups =
     (if cat = [] then groups
      else
        let key = strip (lower cat) in
        case map_of CATEGORY_TO_GROUP key of
          Some grp \<Rightarrow> List.insert grp groups
        | None \<Rightarrow>
            (case partial_match CATEGORY_TO_GROUP key of
               Some grp \<Rightarrow> List.insert grp groups
             | None \<Rightarrow> groups))"

definition map_categories_to_groups :: "string list \<Rightarrow> string list" where
  "map_categories_to_groups categories =
     (if categories = [] then [general_group]
      else
        let groups = fold map_category categories [] in
        if groups = [] then [general_group] else groups)"

definition get_all_groups :: "string list" where
  "get_all_groups = [steel_export_group, coal_import_group, container_group, general_group]"

section \<open>vector\_store.py\<close>

subsection \<open>Values, documents and the two files\<close>

text \<open>
  The values a document field or a filter can hold after \<open>json.loads\<close>: \<open>None\<close>, a
  truth value, an integer, a string or a list of such values (floats and nested objects
  are left out). \<open>truthy\<close> is Python's truth test, \<open>py_eq\<close> its \<open>==\<close>, under which
  \<open>True == 1\<close> and \<open>False == 0\<close>.
\<close>

datatype pyval = PNone | PBool bool | PInt int | PStr string | PList "pyval list"

fun truthy :: "pyval \<Rightarrow> bool" where
  "truthy PNone = False"
| "truthy (PBool b) = b"
| "truthy (PInt n) = (n \<noteq> 0)"
| "truthy (PStr s) = (s \<noteq> [])"
| "truthy (PList xs) = (xs \<noteq> [])"

fun py_eq :: "pyval \<Rightarrow> pyval \<Rightarrow> bool" and py_eq_list :: "pyval list \<Rightarrow> pyval list \<Rightarrow> bool" where
  "py_eq PNone PNone = True"
| "py_eq (PBool a) (PBool b) = (a = b)"
| "py_eq (PBool a) (PInt n) = (n = (if a then 1 else 0))"
| "py_eq (PInt n) (PBool a) = (n = (if a then 1 else 0))"
| "py_eq (PInt m) (PInt n) = (m = n)"
| "py_eq (PStr a) (PStr b) = (a = b)"
| "py_eq (PList xs) (PList ys) = py_eq_list xs ys"
| "py_eq _ _ = False"
| "py_eq_list [] [] = True"
| "py_eq_list (x # xs) (y # ys) = (py_eq x y \<and> py_eq_list xs ys)"
| "py_eq_list _ _ = False"

text \<open>
  A document is the dictionary \<open>add_documents\<close> receives and the one it writes to the
  metadata log. Each field is optional (\<open>None\<close>: the key is absent, so that
  \<open>doc.get(key, default)\<close> gives the default). Title, summary, the two source fields
  and the date are strings, as the log format has them; the list fields hold any value,
  since \<open>_apply_filters\<close> tests whether they are lists.
\<close>

record document =
  title :: "string option"
  summary :: "string option"
  category :: "pyval option"
  assigned_group :: "pyval option"
  events :: "pyval option"
  source_url :: "string option"
  source :: "string option"
  date :: "string option"
  key_words :: "pyval option"

text \<open>
  A line of \<open>metadata.jsonl\<close>: the JSON text of a document, which \<open>json.loads\<close> gives
  back, or text on which \<open>json.loads\<close> raises \<open>JSONDecodeError\<close>.
\<close>

datatype line = Record document | Garbage

type_synonym vec = "real list"

text \<open>
  The FAISS index (\<open>IndexIDMap\<close> over \<open>IndexFlatIP\<close>): the vectors with their
  ids, in the order added.
\<close>

type_synonym index = "(int \<times> vec) list"

text \<open>
  The files of the store: \<open>vector_store/faiss.index\<close>, \<open>vector_store/metadata.jsonl\<close>
  and \<open>vector_store/metadata.backup\<close>; \<open>None\<close> when the file does not exist.
\<close>

record store =
  index_file :: "index option"
  meta_file :: "line list option"
  backup_file :: "line list option"

datatype error = EmbeddingError | TypeError | ValueError | IndexError | OSError | SearchError
  | LLMError string

type_synonym pydate = "int \<times> int \<times> int"

text \<open>
  What the module calls outside itself. \<open>embed_query\<close> is \<open>EMBED.embed_query\<close>
  (\<open>None\<close>: the call raised), \<open>linalg_norm\<close> is \<open>np.linalg.norm\<close>,
  \<open>today\<close> is \<open>datetime.now().strftime('%Y-%m-%d')\<close>,
  \<open>index_search idx q k\<close> is the list \<open>zip(ids[0], scores[0])\<close> of \<open>idx.search(q, k)\<close>
  (\<open>None\<close>: the call raised), \<open>strptime\<close> is \<open>datetime.strptime(s, "%Y-%m-%d").date()\<close>
  as year, month and day (\<open>None\<close>: \<open>ValueError\<close>). The remaining fields say which
  file operation raises: reading the index file, reading the metadata file,
  \<open>idx.add_with_ids\<close> and the append to the metadata file in the batch that starts at a
  given offset, \<open>faiss.write_index\<close>, and in \<open>rebuild_index\<close> the removal of the index
  file, the renaming of the metadata file and the removal of the backup.
\<close>

record env =
  embed_query :: "string \<Rightarrow> vec option"
  linalg_norm :: "vec \<Rightarrow> real"
  today :: string
  index_search :: "index \<Rightarrow> vec \<Rightarrow> int \<Rightarrow> (int \<times> real) list option"
  strptime :: "string \<Rightarrow> pydate option"
  read_index_raises :: bool
  meta_read_raises :: bool
  add_with_ids_raises :: "nat \<Rightarrow> bool"
  meta_append_raises :: "nat \<Rightarrow> bool"
  save_index_raises :: bool
  unlink_index_raises :: bool
  rename_raises :: bool
  unlink_backup_raises :: bool

text \<open>
  \<open>load_index\<close>: the index of the file, a new empty index when there is no file or
  reading it raises. It never raises itself.
\<close>

definition load_index :: "env \<Rightarrow> store \<Rightarrow> index" where
  "load_index e st =
     (case index_file st of
        None \<Rightarrow> []
      | Some idx \<Rightarrow> if read_index_raises e then [] else idx)"

text \<open>The lines \<open>f.read().splitlines()\<close> gives, \<open>[]\<close> when the file does not exist.\<close>

definition lines_of :: "store \<Rightarrow> line list" where
  "lines_of st = (case meta_file st of None \<Rightarrow> [] | Some ls \<Rightarrow> ls)"

subsection \<open>validate\_document\<close>

definition field_ok :: "string option \<Rightarrow> bool" where
  "field_ok v =
     (case v of
        None \<Rightarrow> False
      | Some s \<Rightarrow> s \<noteq> [] \<and> s \<notin> set [''None'', ''none'', ''''])"

definition validate_document :: "document \<Rightarrow> bool" where
  "validate_document doc = (field_ok (title doc) \<and> field_ok (summary doc))"

subsection \<open>add\_documents\<close>

text \<open>\<open>join_with sep xs\<close> is \<open>sep.join(xs)\<close> on a list of strings.\<close>

fun join_with :: "string \<Rightarrow> string list \<Rightarrow> string" where
  "join_with sep [] = []"
| "join_with sep [x] = x"
| "join_with sep (x # y # ys) = x @ sep @ join_with sep (y # ys)"

fun strs_of :: "pyval list \<Rightarrow> string list option" where
  "strs_of [] = Some []"
| "strs_of (PStr s # xs) = map_option ((#) s) (strs_of xs)"
| "strs_of (_ # xs) = None"

text \<open>
  \<open>' '.join(v)\<close> for a field value \<open>v\<close>: a list of strings is joined, a string is
  joined character by character, anything else raises \<open>TypeError\<close>.
\<close>

definition join_field :: "pyval \<Rightarrow> error + string" where
  "join_field v =
     (case v of
        PList xs \<Rightarrow> (case strs_of xs of None \<Rightarrow> Inl TypeError | Some ss \<Rightarrow> Inr (join_with '' '' ss))
      | PStr s \<Rightarrow> Inr (join_with '' '' (map (\<lambda>c. [c]) s))
      | _ \<Rightarrow> Inl TypeError)"

definition get_or :: "'a \<Rightarrow> 'a option \<Rightarrow> 'a" where
  "get_or d v = (case v of None \<Rightarrow> d | Some x \<Rightarrow> x)"

definition text_for_embed :: "document \<Rightarrow> error + string" where
  "text_for_embed doc =
     (case join_field (get_or (PList []) (events doc)) of
        Inl err \<Rightarrow> Inl err
      | Inr ev \<Rightarrow>
          (case join_field (get_or (PList []) (category doc)) of
             Inl err \<Rightarrow> Inl err
           | Inr ca \<Rightarrow>
               Inr (join_with '' ''
                     (filter (\<lambda>s. s \<noteq> [])
                        [get_or [] (title doc), get_or [] (summary doc), ev, ca]))))"

text \<open>
  The normalisation \<open>if norm > 0: vector = vector / norm\<close>. The division is that of
  the real numbers: the rounding of \<open>float32\<close> is not modelled.
\<close>

definition normalize :: "env \<Rightarrow> vec \<Rightarrow> vec" where
  "normalize e v = (let norm = linalg_norm e v in if norm > 0 then map (\<lambda>x. x / norm) v else v)"

definition clean_meta :: "env \<Rightarrow> document \<Rightarrow> document" where
  "clean_meta e doc =
     \<lparr>title = Some (get_or [] (title doc)),
      summary = Some (get_or [] (summary doc)),
      category = Some (get_or (PList []) (category doc)),
      assigned_group = Some (get_or (PList []) (assigned_group doc)),
      events = Some (get_or (PList []) (events doc)),
      source_url = Some (get_or [] (source_url doc)),
      source = Some (get_or [] (source doc)),
      date = Some (get_or (today e) (date doc)),
      key_words = Some (get_or (PList []) (key_words doc))\<rparr>"

text \<open>
  The body of the loop over one batch, for one document: \<open>None\<close> where the source
  goes on to the next document without adding anything (\<open>continue\<close>: the text to embed
  is blank, or building it or the embedding call raised), else the normalised vector and
  the metadata to write.
\<close>

definition embed_document :: "env \<Rightarrow> document \<Rightarrow> (vec \<times> document) option" where
  "embed_document e doc =
     (case text_for_embed doc of
        Inl err \<Rightarrow> None
      | Inr text \<Rightarrow>
          if strip text = [] then None
          else
            (case embed_query e text of
               None \<Rightarrow> None
             | Some v \<Rightarrow> Some (normalize e v, clean_meta e doc)))"

text \<open>
  The loop \<open>for j, doc in enumerate(batch_docs)\<close>: \<open>base\<close> is \<open>id_base + i\<close>, the result
  is \<open>zip(batch_ids, batch_vectors)\<close> and \<open>batch_metas\<close>. A document that is skipped
  still takes its value of \<open>j\<close>.
\<close>

fun embed_batch :: "env \<Rightarrow> int \<Rightarrow> nat \<Rightarrow> document list \<Rightarrow> (int \<times> vec) list \<times> line list" where
  "embed_batch e base j [] = ([], [])"
| "embed_batch e base j (doc # docs) =
     (let (entries, metas) = embed_batch e base (Suc j) docs in
      case embed_document e doc of
        None \<Rightarrow> (entries, metas)
      | Some (v, m) \<Rightarrow> ((base + int j, v) # entries, Record m # metas))"

text \<open>
  The block \<open>if batch_vectors:\<close> on the index in memory and the metadata file. When
  \<open>add_with_ids\<close> raises the batch is lost; when the append to the file raises the
  vectors are in the index and the lines are not written.
\<close>

definition add_batch ::
  "env \<Rightarrow> nat \<Rightarrow> (int \<times> vec) list \<Rightarrow> line list \<Rightarrow> index \<times> line list option \<Rightarrow> index \<times> line list option"
where
  "add_batch e i entries metas s =
     (if entries = [] then s
      else if add_with_ids_raises e i then s
      else if meta_append_raises e i then (fst s @ entries, snd s)
      else (fst s @ entries, Some (get_or [] (snd s) @ metas)))"

text \<open>The loop \<open>for i in range(0, len(valid_docs), batch_size)\<close>, for a positive batch size.\<close>

function add_batches ::
  "env \<Rightarrow> int \<Rightarrow> nat \<Rightarrow> nat \<Rightarrow> document list \<Rightarrow> index \<times> line list option \<Rightarrow> index \<times> line list option"
where
  "add_batches e id_base batch_size i valid_docs s =
     (if batch_size = 0 \<or> length valid_docs \<le> i then s
      else
        let (entries, metas) =
              embed_batch e (id_base + int i) 0 (take batch_size (drop i valid_docs))
        in add_batches e id_base batch_size (i + batch_size) valid_docs
             (add_batch e i entries metas s))"
  by pat_completeness auto
termination
  by (relation "measure (\<lambda>(e, id_base, batch_size, i, valid_docs, s). length valid_docs - i)") auto

declare add_batches.simps [simp del]

text \<open>
  \<open>add_documents\<close> returns the error it raises, if any, and the files it leaves. A
  batch size of zero makes \<open>range\<close> raise \<open>ValueError\<close>, a negative one makes the loop
  empty.
\<close>

definition add_documents :: "env \<Rightarrow> document list \<Rightarrow> int \<Rightarrow> store \<Rightarrow> error option \<times> store" where
  "add_documents e docs batch_size st =
     (if docs = [] then (None, st)
      else
        let valid_docs = filter validate_document docs in
        if valid_docs = [] then (None, st)
        else
          let idx = load_index e st in
          if meta_file st \<noteq> None \<and> meta_read_raises e then (Some OSError, st)
          else
            let id_base = int (length (lines_of st)) in
            if batch_size = 0 then (Some ValueError, st)
            else
              let s = (if batch_size < 0 then (idx, meta_file st)
                       else add_batches e id_base (nat batch_size) 0 valid_docs (idx, meta_file st));
                  st' = st\<lparr>meta_file := snd s\<rparr>
              in if save_index_raises e then (Some OSError, st')
                 else (None, st'\<lparr>index_file := Some (fst s)\<rparr>))"


subsection \<open>\_apply\_filters\<close>

text \<open>
  The dictionary \<open>filters\<close>: each key is optional. The three list filters hold any
  value; the date range is a pair of dates.
\<close>

record filters =
  events_filter :: "pyval option"
  category_filter :: "pyval option"
  group_filter :: "pyval option"
  date_range :: "(pydate \<times> pydate) option"

definition no_filters :: filters where
  "no_filters = \<lparr>events_filter = None, category_filter = None, group_filter = None,
     date_range = None\<rparr>"

text \<open>
  \<open>py_contains x c\<close> is \<open>x in c\<close>: membership under \<open>==\<close> in a list, the substring
  test in a string (\<open>TypeError\<close> when \<open>x\<close> is not a string), \<open>TypeError\<close> for a
  container that is not iterable.
\<close>

definition py_contains :: "pyval \<Rightarrow> pyval \<Rightarrow> error + bool" where
  "py_contains x c =
     (case c of
        PList ys \<Rightarrow> Inr (list_ex (py_eq x) ys)
      | PStr s \<Rightarrow> (case x of PStr a \<Rightarrow> Inr (str_in a s) | _ \<Rightarrow> Inl TypeError)
      | _ \<Rightarrow> Inl TypeError)"

text \<open>\<open>any(x in c for x in xs)\<close>: it stops at the first member, and raises where a test raises before that.\<close>

fun any_in :: "pyval list \<Rightarrow> pyval \<Rightarrow> error + bool" where
  "any_in [] c = Inr False"
| "any_in (x # xs) c =
     (case py_contains x c of
        Inl err \<Rightarrow> Inl err
      | Inr True \<Rightarrow> Inr True
      | Inr False \<Rightarrow> any_in xs c)"

text \<open>
  One of the three list filters: \<open>Inr True\<close> where the source goes on to the next
  filter, \<open>Inr False\<close> where it returns \<open>False\<close>, \<open>Inl\<close> where it raises.
\<close>

definition list_filter :: "pyval option \<Rightarrow> pyval option \<Rightarrow> error + bool" where
  "list_filter wanted field =
     (case wanted of
        None \<Rightarrow> Inr True
      | Some w \<Rightarrow>
          if \<not> truthy w then Inr True
          else
            (case get_or (PList []) field of
               PList xs \<Rightarrow> any_in xs w
             | _ \<Rightarrow> Inr False))"

definition date_filter :: "env \<Rightarrow> (pydate \<times> pydate) option \<Rightarrow> string option \<Rightarrow> bool" where
  "date_filter e wanted doc_date =
     (case wanted of
        None \<Rightarrow> True
      | Some (start_date, end_date) \<Rightarrow>
          if get_or [] doc_date = [] then False
          else
            (case strptime e (get_or [] doc_date) of
               None \<Rightarrow> False
             | Some d \<Rightarrow> start_date \<le> d \<and> d \<le> end_date))"

definition apply_filters_body :: "env \<Rightarrow> document \<Rightarrow> filters \<Rightarrow> error + bool" where
  "apply_filters_body e meta fs =
     (case list_filter (events_filter fs) (events meta) of
        Inl err \<Rightarrow> Inl err
      | Inr False \<Rightarrow> Inr False
      | Inr True \<Rightarrow>
          (case list_filter (category_filter fs) (category meta) of
             Inl err \<Rightarrow> Inl err
           | Inr False \<Rightarrow> Inr False
           | Inr True \<Rightarrow>
               (case list_filter (group_filter fs) (assigned_group meta) of
                  Inl err \<Rightarrow> Inl err
                | Inr False \<Rightarrow> Inr False
                | Inr True \<Rightarrow> Inr (date_filter e (date_range fs) (date meta)))))"

text \<open>\<open>_apply_filters\<close>: the body inside \<open>try\<close>, and \<open>False\<close> for every exception.\<close>

definition apply_filters :: "env \<Rightarrow> document \<Rightarrow> filters \<Rightarrow> bool" where
  "apply_filters e meta fs =
     (case apply_filters_body e meta fs of Inl err \<Rightarrow> False | Inr b \<Rightarrow> b)"

subsection \<open>search\_articles\<close>

text \<open>A hit: the metadata of the line, with the two entries \<open>score\<close> and \<open>doc_id\<close> the search adds.\<close>

record hit =
  meta :: document
  score :: real
  doc_id :: int

text \<open>\<open>xs[i]\<close>: a negative index counts from the end, \<open>None\<close> is \<open>IndexError\<close>.\<close>

definition py_index :: "'a list \<Rightarrow> int \<Rightarrow> 'a option" where
  "py_index xs i =
     (if 0 \<le> i \<and> i < int (length xs) then Some (xs ! nat i)
      else if i < 0 \<and> - int (length xs) \<le> i then Some (xs ! nat (int (length xs) + i))
      else None)"

text \<open>\<open>xs[:k]\<close>: for a negative \<open>k\<close> all but the last \<open>-k\<close> elements.\<close>

definition py_take :: "int \<Rightarrow> 'a list \<Rightarrow> 'a list" where
  "py_take k xs = (if 0 \<le> k then take (nat k) xs else take (length xs - nat (- k)) xs)"

text \<open>
  The loop over \<open>zip(ids[0], scores[0])\<close>, with the list \<open>hits\<close> built so far. A line
  that does not parse, and an index out of range, go on to the next candidate; the test
  that ends the loop follows the filter.
\<close>

fun collect_hits ::
  "env \<Rightarrow> filters \<Rightarrow> int \<Rightarrow> real \<Rightarrow> line list \<Rightarrow> (int \<times> real) list \<Rightarrow> hit list \<Rightarrow> hit list"
where
  "collect_hits e fs top_k threshold meta_lines [] hits = hits"
| "collect_hits e fs top_k threshold meta_lines ((i, s) # rest) hits =
     (if i = - 1 \<or> s < threshold then collect_hits e fs top_k threshold meta_lines rest hits
      else if int (length meta_lines) \<le> i then
        collect_hits e fs top_k threshold meta_lines rest hits
      else
        (case py_index meta_lines i of
           None \<Rightarrow> collect_hits e fs top_k threshold meta_lines rest hits
         | Some Garbage \<Rightarrow> collect_hits e fs top_k threshold meta_lines rest hits
         | Some (Record m) \<Rightarrow>
             (let hits' = (if apply_filters e m fs
                           then hits @ [\<lparr>meta = m, score = s, doc_id = i\<rparr>] else hits)
              in if top_k \<le> int (length hits') then hits'
                 else collect_hits e fs top_k threshold meta_lines rest hits')))"

text \<open>
  The sort key \<open>(x.get("date", ""), x["score"])\<close>: strings compare lexicographically
  by character, tuples lexicographically by component.
\<close>

definition hit_date :: "hit \<Rightarrow> string" where
  "hit_date x = get_or [] (date (meta x))"

definition sort_key_of :: "hit \<Rightarrow> string \<times> real" where
  "sort_key_of x = (hit_date x, score x)"

text \<open>
  \<open>hits.sort(key=..., reverse=True)\<close>: the stable sort in descending order, which
  Python computes by sorting the reversed list and reversing the result.
\<close>

definition sort_hits :: "hit list \<Rightarrow> hit list" where
  "sort_hits hits = rev (sort_key sort_key_of (rev hits))"

text \<open>The body of \<open>search_articles\<close> inside \<open>try\<close>: \<open>Inl\<close> where it raises.\<close>

definition search_articles_body ::
  "env \<Rightarrow> string \<Rightarrow> filters option \<Rightarrow> int \<Rightarrow> real \<Rightarrow> store \<Rightarrow> error + hit list"
where
  "search_articles_body e query filters_opt top_k threshold st =
     (let fs = get_or no_filters filters_opt;
          idx = load_index e st
      in if length idx = 0 then Inr []
         else
           (case embed_query e query of
              None \<Rightarrow> Inl EmbeddingError
            | Some v \<Rightarrow>
                (let query_vector = normalize e v;
                     search_k = min (top_k * 5) (int (length idx))
                 in case index_search e idx query_vector search_k of
                      None \<Rightarrow> Inl SearchError
                    | Some candidates \<Rightarrow>
                        (case meta_file st of
                           None \<Rightarrow> Inr []
                         | Some meta_lines \<Rightarrow>
                             if meta_read_raises e then Inl OSError
                             else
                               Inr (py_take top_k
                                     (sort_hits
                                        (collect_hits e fs top_k threshold meta_lines
                                           candidates [])))))))"

text \<open>
  \<open>search_articles\<close>: the handler \<open>except Exception\<close> logs the error and returns
  the empty list. The result is a sum so that a raised error could be told from a
  returned list.
\<close>

definition search_articles ::
  "env \<Rightarrow> string \<Rightarrow> filters option \<Rightarrow> int \<Rightarrow> real \<Rightarrow> store \<Rightarrow> error + hit list"
where
  "search_articles e query filters_opt top_k threshold st =
     (case search_articles_body e query filters_opt top_k threshold st of
        Inl err \<Rightarrow> Inr []
      | Inr hits \<Rightarrow> Inr hits)"

subsection \<open>rebuild\_index\<close>



subsection \<open>The correspondence between the index and the metadata log\<close>

text \<open>
  \<open>search_articles\<close> reads the metadata of the vector with id \<open>n\<close> from line \<open>n\<close> of
  the log. The two files are in step when the ids of the vectors, in the order added,
  are the positions \<open>0, 1, 2, ...\<close> of the lines: as many vectors as lines, and the
  \<open>n\<close>-th vector has the id \<open>n\<close>.
\<close>

definition id_aligned :: "store \<Rightarrow> bool" where
  "id_aligned st = (map fst (get_or [] (index_file st)) = map int [0..<length (lines_of st)])"

text \<open>No file operation raises.\<close>

definition io_ok :: "env \<Rightarrow> bool" where
  "io_ok e =
     (\<not> read_index_raises e \<and> \<not> meta_read_raises e \<and>
      (\<forall>i. \<not> add_with_ids_raises e i) \<and> (\<forall>i. \<not> meta_append_raises e i) \<and>
      \<not> save_index_raises e \<and> \<not> unlink_index_raises e \<and> \<not> rename_raises e \<and>
      \<not> unlink_backup_raises e)"


section \<open>rag\_chain.py\<close>









section \<open>Example data\<close>

text \<open>
  An environment in which every call succeeds: the embedding of every text is the vector
  \<open>(3, 4)\<close>, of norm 5 (the norm is given on that vector alone), and the index
  search answers with the ids 0 and 1 at the scores 0.9 and 0.5, cut to the number of
  candidates asked for.
\<close>

definition example_env :: env where
  "example_env =
     \<lparr>embed_query = (\<lambda>text. Some [3, 4]),
      linalg_norm = (\<lambda>v. if v = [3, 4] then 5 else 0),
      today = ''2025-08-01'',
      index_search = (\<lambda>idx q k. Some (take (nat k) [(0, 9 / 10), (1, 5 / 10)])),
      strptime = (\<lambda>s. None),
      read_index_raises = False,
      meta_read_raises = False,
      add_with_ids_raises = (\<lambda>i. False),
      meta_append_raises = (\<lambda>i. False),
      save_index_raises = False,
      unlink_index_raises = False,
      rename_raises = False,
      unlink_backup_raises = False\<rparr>"

text \<open>The same environment with the embedding service down.\<close>

definition embedding_down_env :: env where
  "embedding_down_env = example_env\<lparr>embed_query := (\<lambda>text. None)\<rparr>"

definition empty_store :: store where
  "empty_store = \<lparr>index_file = None, meta_file = None, backup_file = None\<rparr>"

definition january_doc :: document where
  "january_doc =
     \<lparr>title = Some ''Coal imports fall'',
      summary = Some ''Imports fell in January.'',
      category = Some (PList [PStr ''coal'']),
      assigned_group = Some (PList [PStr ''coal_import_group'']),
      events = Some (PList []),
      source_url = Some [],
      source = Some [],
      date = Some ''2024-01-01'',
      key_words = Some (PList [])\<rparr>"

definition february_doc :: document where
  "february_doc =
     \<lparr>title = Some ''Supramax rates surge'',
      summary = Some ''Rates rose due to demand.'',
      category = Some (PList [PStr ''supramax'', PStr ''steel'']),
      assigned_group = Some (PList [PStr ''steel_export_group'']),
      events = Some (PList []),
      source_url = Some [],
      source = Some [],
      date = Some ''2024-02-01'',
      key_words = Some (PList [])\<rparr>"

text \<open>A store that holds the two documents, in step: vector 0 with line 0, vector 1 with line 1.\<close>

definition two_docs_store :: store where
  "two_docs_store =
     \<lparr>index_file = Some [(0, [1, 0]), (1, [0, 1])],
      meta_file = Some [Record january_doc, Record february_doc],
      backup_file = None\<rparr>"

definition steel_filter :: filters where
  "steel_filter = no_filters\<lparr>category_filter := Some (PList [PStr ''steel''])\<rparr>"

text \<open>A document whose title and summary are a single blank: it passes \<open>validate_document\<close>, and its text to embed is blank.\<close>

definition blank_doc :: document where
  "blank_doc =
     \<lparr>title = Some '' '', summary = Some '' '', category = None, assigned_group = None,
      events = None, source_url = None, source = None, date = None, key_words = None\<rparr>"








section \<open>Properties of the group mapper\<close>

lemma table_groups: "snd ` set CATEGORY_TO_GROUP \<subseteq> set get_all_groups"
  by (simp add: CATEGORY_TO_GROUP_def get_all_groups_def)

lemma partial_match_in_table:
  "partial_match table key = Some grp \<Longrightarrow> grp \<in> snd ` set table"
  by (induction table key rule: partial_match.induct) (auto split: if_splits)

lemma map_of_in_table: "map_of table key = Some grp \<Longrightarrow> grp \<in> snd ` set table"
  by (force dest: map_of_SomeD)

lemma map_category_groups:
  "set (map_category cat groups) \<subseteq> set groups \<union> snd ` set CATEGORY_TO_GROUP"
  by (auto simp: map_category_def Let_def split: option.splits
      dest: partial_match_in_table map_of_in_table)

lemma map_category_distinct: "distinct groups \<Longrightarrow> distinct (map_category cat groups)"
  by (simp add: map_category_def Let_def split: option.splits)

lemma fold_map_category_groups:
  "set (fold map_category cats groups) \<subseteq> set groups \<union> snd ` set CATEGORY_TO_GROUP"
proof (induction cats arbitrary: groups)
  case Nil
  then show ?case by simp
next
  case (Cons cat cats)
  have "set (fold map_category cats (map_category cat groups))
      \<subseteq> set (map_category cat groups) \<union> snd ` set CATEGORY_TO_GROUP"
    by (rule Cons.IH)
  with map_category_groups [of cat groups] show ?case by auto
qed

lemma fold_map_category_distinct:
  "distinct groups \<Longrightarrow> distinct (fold map_category cats groups)"
  by (induction cats arbitrary: groups) (simp_all add: map_category_distinct)

lemma general_group_known: "general_group \<in> set get_all_groups"
  by (simp add: get_all_groups_def)

lemma exact_match_single:
  assumes "cat \<noteq> []" and "map_of CATEGORY_TO_GROUP (strip (lower cat)) = Some grp"
  shows "map_categories_to_groups [cat] = [grp]"
  using assms by (simp add: map_categories_to_groups_def map_category_def)

text \<open>
  Claim C4. The group mapper sends \<open>["supramax"]\<close> to the steel export group alone,
  \<open>["panamax", "coal"]\<close> to the coal import group alone, and both the empty list and
  \<open>["unknown_term_xyz"]\<close> to the general group alone. An exact key match has
  priority over the partial match: a category whose normalised key is a key of the table
  contributes the group the table gives for that key, whatever the substring search
  over the table would have found first.
\<close>

theorem map_categories_to_groups_examples:
  "map_categories_to_groups [''supramax''] = [steel_export_group] \<and>
   map_categories_to_groups [''panamax'', ''coal''] = [coal_import_group] \<and>
   map_categories_to_groups [] = [general_group] \<and>
   map_categories_to_groups [''unknown_term_xyz''] = [general_group] \<and>
   (\<forall>cat grp. cat \<noteq> [] \<longrightarrow> map_of CATEGORY_TO_GROUP (strip (lower cat)) = Some grp \<longrightarrow>
      map_categories_to_groups [cat] = [grp])"
proof -
  have "map_categories_to_groups [''supramax''] = [steel_export_group]"
    by code_simp
  moreover have "map_categories_to_groups [''panamax'', ''coal''] = [coal_import_group]"
    by code_simp
  moreover have "map_categories_to_groups [] = [general_group]"
    by (simp add: map_categories_to_groups_def)
  moreover have "map_categories_to_groups [''unknown_term_xyz''] = [general_group]"
    by code_simp
  ultimately show ?thesis
    using exact_match_single by blast
qed

text \<open>
  The priority matters for \<open>"shipping"\<close>: the substring search stops at the earlier key
  \<open>"shipping schedule"\<close> of the container group, the exact match gives the general group.
\<close>

theorem map_categories_to_groups_examples_witness:
  "''shipping'' \<noteq> [] \<and>
   map_of CATEGORY_TO_GROUP (strip (lower ''shipping'')) = Some general_group \<and>
   partial_match CATEGORY_TO_GROUP (strip (lower ''shipping'')) = Some container_group \<and>
   map_categories_to_groups [''shipping''] = [general_group]"
proof -
  have exact: "map_of CATEGORY_TO_GROUP (strip (lower ''shipping'')) = Some general_group"
    by code_simp
  have part: "partial_match CATEGORY_TO_GROUP (strip (lower ''shipping'')) = Some container_group"
    by code_simp
  have "map_categories_to_groups [''shipping''] = [general_group]"
    using map_categories_to_groups_examples exact by blast
  with exact part show ?thesis by simp
qed

text \<open>
  Claim C10. For every list of category strings, empty strings and unknown terms
  included, the group mapper returns a list that is not empty, has no duplicates, and
  holds only the four groups of \<open>get_all_groups\<close>.
\<close>

theorem map_categories_to_groups_codomain:
  "map_categories_to_groups categories \<noteq> [] \<and>
   distinct (map_categories_to_groups categories) \<and>
   set (map_categories_to_groups categories) \<subseteq> set get_all_groups"
proof -
  have "set (fold map_category categories []) \<subseteq> set get_all_groups"
    using fold_map_category_groups [of categories "[]"] table_groups by auto
  moreover have "distinct (fold map_category categories [])"
    by (rule fold_map_category_distinct) simp
  ultimately show ?thesis
    using general_group_known by (simp add: map_categories_to_groups_def Let_def)
qed

theorem map_categories_to_groups_codomain_witness:
  "map_categories_to_groups ['''', ''Capesize '', ''teu'', ''zzz''] \<noteq> [] \<and>
   distinct (map_categories_to_groups ['''', ''Capesize '', ''teu'', ''zzz'']) \<and>
   set (map_categories_to_groups ['''', ''Capesize '', ''teu'', ''zzz''])
     \<subseteq> set get_all_groups \<and>
   length (map_categories_to_groups ['''', ''Capesize '', ''teu'', ''zzz'']) = 2"
proof -
  have "length (map_categories_to_groups ['''', ''Capesize '', ''teu'', ''zzz'']) = 2"
    by code_simp
  with map_categories_to_groups_codomain [of "['''', ''Capesize '', ''teu'', ''zzz'']"]
  show ?thesis by simp
qed

section \<open>Properties of the retrieval\<close>

lemma sort_hits_descending: "sorted (rev (map sort_key_of (sort_hits hits)))"
  by (simp add: sort_hits_def rev_map)

lemma sort_hits_set: "set (sort_hits hits) = set hits"
  by (simp add: sort_hits_def)

lemma sort_hits_length: "length (sort_hits hits) = length hits"
  by (simp add: sort_hits_def)

lemma py_take_set: "set (py_take k xs) \<subseteq> set xs"
  by (auto simp: py_take_def dest: in_set_takeD)

lemma py_take_length: "0 \<le> k \<Longrightarrow> int (length (py_take k xs)) \<le> k"
  by (simp add: py_take_def)

lemma py_take_is_take: "\<exists>n. py_take k xs = take n xs"
  by (auto simp: py_take_def)

lemma descending_take: "sorted (rev (map f xs)) \<Longrightarrow> sorted (rev (map f (take n xs)))"
proof -
  assume a: "sorted (rev (map f xs))"
  have "xs = take n xs @ drop n xs" by simp
  then have "rev (map f xs) = rev (map f (drop n xs)) @ rev (map f (take n xs))"
    by (metis map_append rev_append)
  with a show ?thesis by (simp add: sorted_append)
qed

lemma descending_nth:
  assumes "sorted (rev (map f xs))" and "i < j" and "j < length xs"
  shows "f (xs ! j) \<le> f (xs ! i)"
proof -
  let ?r = "rev (map f xs)"
  let ?n = "length xs"
  have "?r ! (?n - 1 - j) \<le> ?r ! (?n - 1 - i)"
    using assms by (intro sorted_nth_mono) auto
  moreover have "?r ! (?n - 1 - j) = f (xs ! j)"
    using assms by (simp add: rev_nth)
  moreover have "?r ! (?n - 1 - i) = f (xs ! i)"
    using assms by (simp add: rev_nth)
  ultimately show ?thesis by simp
qed

lemma ranked_result:
  assumes "sorted (rev (map sort_key_of res))" and "i < length res" and "j < length res"
  shows "(hit_date (res ! j) < hit_date (res ! i) \<longrightarrow> i < j) \<and>
         (hit_date (res ! i) = hit_date (res ! j) \<and> score (res ! j) < score (res ! i) \<longrightarrow> i < j)"
proof -
  have later: "sort_key_of (res ! i) \<le> sort_key_of (res ! j)" if "j < i"
    using descending_nth [OF assms(1) that assms(2)] .
  show ?thesis
  proof (cases "i < j")
    case True
    then show ?thesis by simp
  next
    case False
    show ?thesis
    proof (cases "i = j")
      case True
      then show ?thesis by simp
    next
      case False
      with \<open>\<not> i < j\<close> have "j < i" by simp
      from later [OF this] show ?thesis
        by (auto simp: sort_key_of_def less_eq_prod_def)
    qed
  qed
qed

text \<open>What \<open>search_articles\<close> returns is the sorted list of the collected hits, cut by \<open>hits[:top_k]\<close>, or the empty list.\<close>

lemma search_articles_cases:
  assumes "search_articles e query fo top_k threshold st = Inr res"
  shows "res = [] \<or>
         (\<exists>meta_lines candidates.
            res = py_take top_k (sort_hits
                    (collect_hits e (get_or no_filters fo) top_k threshold meta_lines candidates [])))"
  using assms
  by (auto simp: search_articles_def search_articles_body_def Let_def
      split: sum.splits option.splits if_splits)

lemma search_articles_descending:
  assumes "search_articles e query fo top_k threshold st = Inr res"
  shows "sorted (rev (map sort_key_of res))"
proof -
  from search_articles_cases [OF assms] show ?thesis
  proof
    assume "res = []"
    then show ?thesis by simp
  next
    assume "\<exists>meta_lines candidates.
       res = py_take top_k (sort_hits
               (collect_hits e (get_or no_filters fo) top_k threshold meta_lines candidates []))"
    then obtain meta_lines candidates where
      res: "res = py_take top_k (sort_hits
              (collect_hits e (get_or no_filters fo) top_k threshold meta_lines candidates []))"
      by blast
    obtain n where "res = take n (sort_hits
        (collect_hits e (get_or no_filters fo) top_k threshold meta_lines candidates []))"
      using py_take_is_take res by metis
    then show ?thesis
      using descending_take [OF sort_hits_descending] by simp
  qed
qed

lemma search_articles_length:
  assumes "search_articles e query fo top_k threshold st = Inr res" and "0 \<le> top_k"
  shows "int (length res) \<le> top_k"
  using search_articles_cases [OF assms(1)] assms(2) py_take_length by auto

text \<open>
  Claim C2. In the list \<open>search_articles\<close> returns, a hit with a later date string
  stands before every hit with an earlier one, whatever the scores, and of two hits with
  the same date the one with the higher score stands first. For a \<open>top_k\<close> that is not
  negative the list has at most \<open>top_k\<close> hits.
\<close>

theorem search_articles_ranking:
  assumes "search_articles e query fo top_k threshold st = Inr res"
  shows "(\<forall>i<length res. \<forall>j<length res.
            (hit_date (res ! j) < hit_date (res ! i) \<longrightarrow> i < j) \<and>
            (hit_date (res ! i) = hit_date (res ! j) \<and> score (res ! j) < score (res ! i)
               \<longrightarrow> i < j)) \<and>
         (0 \<le> top_k \<longrightarrow> int (length res) \<le> top_k)"
  using ranked_result [OF search_articles_descending [OF assms]]
    search_articles_length [OF assms] by blast

text \<open>
  The example of the claim: the document of 2024-01-01 is found at score 0.9, that of
  2024-02-01 at score 0.5, and the second one is returned first.
\<close>

theorem search_articles_ranking_witness:
  "search_articles example_env ''rates'' None 5 (1 / 10) two_docs_store =
     Inr [\<lparr>meta = february_doc, score = 5 / 10, doc_id = 1\<rparr>,
          \<lparr>meta = january_doc, score = 9 / 10, doc_id = 0\<rparr>] \<and>
   hit_date \<lparr>meta = january_doc, score = 9 / 10, doc_id = 0\<rparr>
     < hit_date \<lparr>meta = february_doc, score = 5 / 10, doc_id = 1\<rparr> \<and>
   int (length [\<lparr>meta = february_doc, score = 5 / 10, doc_id = 1\<rparr>,
                \<lparr>meta = january_doc, score = 9 / 10, doc_id = 0\<rparr>]) \<le> 5"
proof -
  have found: "search_articles example_env ''rates'' None 5 (1 / 10) two_docs_store =
     Inr [\<lparr>meta = february_doc, score = 5 / 10, doc_id = 1\<rparr>,
          \<lparr>meta = january_doc, score = 9 / 10, doc_id = 0\<rparr>]"
    by code_simp
  have later: "hit_date \<lparr>meta = january_doc, score = 9 / 10, doc_id = 0\<rparr>
     < hit_date \<lparr>meta = february_doc, score = 5 / 10, doc_id = 1\<rparr>"
    by code_simp
  from search_articles_ranking [OF found] have
    "int (length [\<lparr>meta = february_doc, score = 5 / 10, doc_id = 1\<rparr>,
                  \<lparr>meta = january_doc, score = 9 / 10, doc_id = 0\<rparr>]) \<le> 5"
    by simp
  with found later show ?thesis by simp
qed

lemma any_in_list:
  "any_in xs (PList ws) = Inr True \<Longrightarrow> \<exists>x\<in>set xs. \<exists>w\<in>set ws. py_eq x w"
  by (induction xs) (auto simp: py_contains_def list_ex_iff split: bool.splits)

lemma list_filter_list:
  assumes "list_filter (Some (PList ws)) field = Inr True" and "ws \<noteq> []"
  shows "\<exists>xs. field = Some (PList xs) \<and> (\<exists>x\<in>set xs. \<exists>w\<in>set ws. py_eq x w)"
proof (cases field)
  case None
  with assms show ?thesis by (simp add: list_filter_def get_or_def)
next
  case (Some v)
  with assms show ?thesis
    by (cases v) (auto simp: list_filter_def get_or_def dest: any_in_list)
qed

lemma apply_filters_category:
  assumes "apply_filters e m fs" and "category_filter fs = Some (PList ws)" and "ws \<noteq> []"
  shows "\<exists>xs. category m = Some (PList xs) \<and> (\<exists>x\<in>set xs. \<exists>w\<in>set ws. py_eq x w)"
proof -
  from assms(1) have "list_filter (category_filter fs) (category m) = Inr True"
    by (auto simp: apply_filters_def apply_filters_body_def split: sum.splits bool.splits)
  with assms(2,3) show ?thesis by (simp add: list_filter_list)
qed

lemma collect_hits_step:
  "collect_hits e fs top_k threshold meta_lines ((i, s) # rest) hits
     = collect_hits e fs top_k threshold meta_lines rest hits \<or>
   collect_hits e fs top_k threshold meta_lines ((i, s) # rest) hits = hits \<or>
   (\<exists>m. apply_filters e m fs \<and>
      (collect_hits e fs top_k threshold meta_lines ((i, s) # rest) hits
         = hits @ [\<lparr>meta = m, score = s, doc_id = i\<rparr>] \<or>
       collect_hits e fs top_k threshold meta_lines ((i, s) # rest) hits
         = collect_hits e fs top_k threshold meta_lines rest
             (hits @ [\<lparr>meta = m, score = s, doc_id = i\<rparr>])))"
proof (cases "py_index meta_lines i")
  case None
  then show ?thesis by simp
next
  case (Some l)
  show ?thesis
  proof (cases l)
    case Garbage
    with Some show ?thesis by simp
  next
    case (Record m)
    show ?thesis
    proof (cases "apply_filters e m fs")
      case True
      with Some Record show ?thesis by (simp add: Let_def) blast
    next
      case False
      with Some Record show ?thesis by (simp add: Let_def)
    qed
  qed
qed

lemma collect_hits_filtered:
  "h \<in> set (collect_hits e fs top_k threshold meta_lines candidates hits) \<Longrightarrow>
   h \<in> set hits \<or> apply_filters e (meta h) fs"
proof (induction candidates arbitrary: hits)
  case Nil
  then show ?case by simp
next
  case (Cons c candidates)
  obtain i s where c: "c = (i, s)" by (cases c)
  let ?res = "collect_hits e fs top_k threshold meta_lines ((i, s) # candidates) hits"
  from Cons.prems have h: "h \<in> set ?res" by (simp only: c)
  consider (skip) "?res = collect_hits e fs top_k threshold meta_lines candidates hits"
    | (stop) "?res = hits"
    | (add) m where "apply_filters e m fs"
        "?res = hits @ [\<lparr>meta = m, score = s, doc_id = i\<rparr>]"
    | (go) m where "apply_filters e m fs"
        "?res = collect_hits e fs top_k threshold meta_lines candidates
                  (hits @ [\<lparr>meta = m, score = s, doc_id = i\<rparr>])"
    using collect_hits_step [of e fs top_k threshold meta_lines i s candidates hits] by blast
  then show ?case
  proof cases
    case skip
    from h have "h \<in> set (collect_hits e fs top_k threshold meta_lines candidates hits)"
      unfolding skip .
    then show ?thesis by (rule Cons.IH)
  next
    case stop
    from h have "h \<in> set hits" unfolding stop .
    then show ?thesis by simp
  next
    case add
    from h have "h \<in> set (hits @ [\<lparr>meta = m, score = s, doc_id = i\<rparr>])"
      unfolding add(2) .
    with add(1) show ?thesis by auto
  next
    case go
    from h have "h \<in> set (collect_hits e fs top_k threshold meta_lines candidates
        (hits @ [\<lparr>meta = m, score = s, doc_id = i\<rparr>]))"
      unfolding go(2) .
    then have "h \<in> set (hits @ [\<lparr>meta = m, score = s, doc_id = i\<rparr>])
        \<or> apply_filters e (meta h) fs"
      by (rule Cons.IH)
    with go(1) show ?thesis by auto
  qed
qed

text \<open>
  Claim C3. Under a filter whose \<open>category\<close> entry is a non-empty list, every hit
  \<open>search_articles\<close> returns has a \<open>category\<close> field that is a list and has an element
  equal to an element of the filter's list. A document whose category is absent, is not
  a list, or shares no element with the filter is therefore not returned.
\<close>

theorem search_articles_category_filter:
  assumes "category_filter fs = Some (PList wanted)" and "wanted \<noteq> []"
    and "search_articles e query (Some fs) top_k threshold st = Inr res"
    and "h \<in> set res"
  shows "\<exists>cats. category (meta h) = Some (PList cats) \<and>
           (\<exists>c\<in>set cats. \<exists>w\<in>set wanted. py_eq c w)"
proof -
  have fs: "get_or no_filters (Some fs) = fs"
    by (simp add: get_or_def)
  from assms(4) have "res \<noteq> []" by auto
  with search_articles_cases [OF assms(3)] obtain meta_lines candidates where
    res: "res = py_take top_k (sort_hits
            (collect_hits e fs top_k threshold meta_lines candidates []))"
    unfolding fs by blast
  let ?hits = "collect_hits e fs top_k threshold meta_lines candidates []"
  from assms(4) have "h \<in> set (py_take top_k (sort_hits ?hits))"
    unfolding res .
  then have "h \<in> set (sort_hits ?hits)"
    using py_take_set [of top_k "sort_hits ?hits"] by (rule rev_subsetD)
  then have "h \<in> set ?hits"
    by (simp only: sort_hits_set)
  then have "h \<in> set [] \<or> apply_filters e (meta h) fs"
    by (rule collect_hits_filtered)
  then have "apply_filters e (meta h) fs"
    by simp
  then show ?thesis
    using assms(1,2) by (rule apply_filters_category)
qed

text \<open>
  With the filter \<open>{"category": ["steel"]}\<close> the search over the two documents returns
  the one tagged \<open>steel\<close> and leaves out the one tagged \<open>coal\<close>.
\<close>

theorem search_articles_category_filter_witness:
  "category_filter steel_filter = Some (PList [PStr ''steel'']) \<and>
   [PStr ''steel''] \<noteq> [] \<and>
   search_articles example_env ''rates'' (Some steel_filter) 5 (1 / 10) two_docs_store =
     Inr [\<lparr>meta = february_doc, score = 5 / 10, doc_id = 1\<rparr>] \<and>
   (\<exists>cats. category february_doc = Some (PList cats) \<and>
      (\<exists>c\<in>set cats. \<exists>w\<in>set [PStr ''steel'']. py_eq c w))"
proof -
  have wanted: "category_filter steel_filter = Some (PList [PStr ''steel''])"
    by (simp add: steel_filter_def)
  have found: "search_articles example_env ''rates'' (Some steel_filter) 5 (1 / 10)
      two_docs_store = Inr [\<lparr>meta = february_doc, score = 5 / 10, doc_id = 1\<rparr>]"
    by code_simp
  have "\<exists>cats. category (meta \<lparr>meta = february_doc, score = 5 / 10, doc_id = 1\<rparr>)
          = Some (PList cats) \<and> (\<exists>c\<in>set cats. \<exists>w\<in>set [PStr ''steel'']. py_eq c w)"
    by (rule search_articles_category_filter [OF wanted _ found]) simp_all
  with wanted found show ?thesis by simp
qed

text \<open>
  Claim C6, as the code has it. \<open>search_articles\<close> never hands an error to its caller:
  it always returns a list. When the embedding call raises, the result is the empty
  list, the same result as for an empty index.
\<close>

theorem search_articles_absorbs_errors:
  "(\<exists>hits. search_articles e query fo top_k threshold st = Inr hits) \<and>
   (embed_query e query = None \<longrightarrow>
      search_articles e query fo top_k threshold st = Inr []) \<and>
   (load_index e st = [] \<longrightarrow> search_articles e query fo top_k threshold st = Inr [])"
  by (auto simp: search_articles_def search_articles_body_def Let_def
      split: sum.splits option.splits)

theorem search_articles_absorbs_errors_witness:
  "embed_query embedding_down_env ''rates'' = None \<and>
   load_index example_env empty_store = [] \<and>
   search_articles embedding_down_env ''rates'' None 5 (1 / 10) two_docs_store = Inr [] \<and>
   search_articles example_env ''rates'' None 5 (1 / 10) empty_store = Inr []"
proof -
  have down: "embed_query embedding_down_env ''rates'' = None"
    by (simp add: embedding_down_env_def)
  have no_index: "load_index example_env empty_store = []"
    by (simp add: load_index_def empty_store_def)
  have absorbed:
    "search_articles embedding_down_env ''rates'' None 5 (1 / 10) two_docs_store = Inr []"
    using search_articles_absorbs_errors [of embedding_down_env "''rates''" None 5 "1 / 10"
        two_docs_store] down
    by blast
  have empty:
    "search_articles example_env ''rates'' None 5 (1 / 10) empty_store = Inr []"
    using search_articles_absorbs_errors [of example_env "''rates''" None 5 "1 / 10"
        empty_store] no_index
    by blast
  from down no_index absorbed empty show ?thesis
    by blast
qed

text \<open>
  The claim as stated fails: with the embedding service down and two documents in the
  index, the body of \<open>search_articles\<close> raises, and the caller receives the empty
  list and no error.
\<close>

theorem search_articles_failure_counterexample:
  "embed_query embedding_down_env ''rates'' = None \<and>
   load_index embedding_down_env two_docs_store \<noteq> [] \<and>
   search_articles_body embedding_down_env ''rates'' None 5 (1 / 10) two_docs_store
     = Inl EmbeddingError \<and>
   search_articles embedding_down_env ''rates'' None 5 (1 / 10) two_docs_store = Inr [] \<and>
   \<not> (\<exists>err. search_articles embedding_down_env ''rates'' None 5 (1 / 10) two_docs_store
              = Inl err)"
  by (simp add: search_articles_def search_articles_body_def embedding_down_env_def
      example_env_def two_docs_store_def load_index_def Let_def)


section \<open>Properties of the ingestion\<close>

lemma embed_document_meta:
  "embed_document e d = Some (v, m) \<Longrightarrow> m = clean_meta e d"
  by (auto simp: embed_document_def split: sum.splits if_splits option.splits)

lemma embed_batch_lengths:
  "length (fst (embed_batch e base j docs)) = length (snd (embed_batch e base j docs))"
proof (induction docs arbitrary: j)
  case Nil
  then show ?case by simp
next
  case (Cons d docs)
  obtain entries metas where rest: "embed_batch e base (Suc j) docs = (entries, metas)"
    by (cases "embed_batch e base (Suc j) docs")
  with Cons.IH [of "Suc j"] have "length entries = length metas" by simp
  with rest show ?case by (simp split: option.splits)
qed

lemma upt_shift: "[j..<j + Suc n] = j # [Suc j..<Suc j + n]"
  by (subst upt_rec) (simp del: upt_Suc)

lemma embed_batch_all:
  assumes "\<forall>d\<in>set docs. embed_document e d \<noteq> None"
  shows "map fst (fst (embed_batch e base j docs)) = map (\<lambda>k. base + int k) [j..<j + length docs] \<and>
         snd (embed_batch e base j docs) = map (\<lambda>d. Record (clean_meta e d)) docs"
  using assms
proof (induction docs arbitrary: j)
  case Nil
  then show ?case by simp
next
  case (Cons d docs)
  from Cons.prems obtain v m where d: "embed_document e d = Some (v, m)" by fastforce
  then have m: "m = clean_meta e d" by (rule embed_document_meta)
  obtain entries metas where rest: "embed_batch e base (Suc j) docs = (entries, metas)"
    by (cases "embed_batch e base (Suc j) docs")
  from Cons.prems have "\<forall>d\<in>set docs. embed_document e d \<noteq> None" by simp
  from Cons.IH [OF this, of "Suc j"] rest
  have ih: "map fst entries = map (\<lambda>k. base + int k) [Suc j..<Suc j + length docs]"
    "metas = map (\<lambda>d. Record (clean_meta e d)) docs"
    by simp_all
  have "[j..<j + length (d # docs)] = j # [Suc j..<Suc j + length docs]"
    using upt_shift [of j "length docs"] by simp
  with ih d m rest show ?case
    by (simp del: upt_Suc)
qed


lemma ids_shift:
  "map (\<lambda>k. base + int i + int k) [0..<n] = map (\<lambda>k. base + int k) [i..<i + n]"
  by (induction n) simp_all

lemma upt_batches:
  assumes "i < n" and "0 < bs"
  shows "[i..<i + min bs (n - i)] @ [i + bs..<n] = [i..<n]"
proof (cases "i + bs \<le> n")
  case True
  then have "[i..<n] = [i..<(i + bs) + (n - (i + bs))]" by simp
  also have "\<dots> = [i..<i + bs] @ [i + bs..<(i + bs) + (n - (i + bs))]"
    by (rule upt_add_eq_append) simp
  finally show ?thesis using True by (simp add: min_def)
next
  case False
  with assms show ?thesis by (simp add: min_def)
qed

lemma add_batches_stop:
  "length valid_docs \<le> i \<Longrightarrow> add_batches e id_base batch_size i valid_docs s = s"
  by (subst add_batches.simps) simp

lemma add_batches_step:
  assumes "0 < batch_size" and "i < length valid_docs"
    and "embed_batch e (id_base + int i) 0 (take batch_size (drop i valid_docs)) = (entries, metas)"
  shows "add_batches e id_base batch_size i valid_docs s =
         add_batches e id_base batch_size (i + batch_size) valid_docs
           (add_batch e i entries metas s)"
  using assms by (subst add_batches.simps) simp

lemma add_batches_all:
  assumes "0 < batch_size"
    and "\<forall>d\<in>set valid_docs. embed_document e d \<noteq> None"
    and "\<forall>i. \<not> add_with_ids_raises e i" and "\<forall>i. \<not> meta_append_raises e i"
  shows "map fst (fst (add_batches e id_base batch_size i valid_docs s)) =
           map fst (fst s) @ map (\<lambda>k. id_base + int k) [i..<length valid_docs] \<and>
         get_or [] (snd (add_batches e id_base batch_size i valid_docs s)) =
           get_or [] (snd s) @ map (\<lambda>d. Record (clean_meta e d)) (drop i valid_docs)"
  using assms
proof (induction e id_base batch_size i valid_docs s rule: add_batches.induct)
  case (1 e id_base batch_size i valid_docs s)
  show ?case
  proof (cases "length valid_docs \<le> i")
    case True
    then show ?thesis by (simp add: add_batches_stop)
  next
    case False
    then have i: "i < length valid_docs" by simp
    define batch where "batch = take batch_size (drop i valid_docs)"
    obtain entries metas where
      eb: "embed_batch e (id_base + int i) 0 batch = (entries, metas)"
      by (cases "embed_batch e (id_base + int i) 0 batch")
    have "set batch \<subseteq> set valid_docs"
      unfolding batch_def using set_take_subset set_drop_subset by fast
    with "1.prems"(2) have all: "\<forall>d\<in>set batch. embed_document e d \<noteq> None" by blast
    have len: "length batch = min batch_size (length valid_docs - i)"
      by (simp add: batch_def min.commute)
    from embed_batch_all [OF all, of "id_base + int i" 0] eb
    have ids: "map fst entries = map (\<lambda>k. id_base + int i + int k) [0..<length batch]"
      and metas: "metas = map (\<lambda>d. Record (clean_meta e d)) batch"
      by simp_all
    from ids have "length entries = length batch"
      using length_map [of fst entries] by simp
    with len i "1.prems"(1) have "entries \<noteq> []" by auto
    with "1.prems"(3,4) have ab:
      "add_batch e i entries metas s = (fst s @ entries, Some (get_or [] (snd s) @ metas))"
      by (simp add: add_batch_def)
    have step: "add_batches e id_base batch_size i valid_docs s =
        add_batches e id_base batch_size (i + batch_size) valid_docs
          (add_batch e i entries metas s)"
      using "1.prems"(1) i eb unfolding batch_def by (rule add_batches_step)
    have ih: "map fst (fst (add_batches e id_base batch_size (i + batch_size) valid_docs
                 (add_batch e i entries metas s))) =
           map fst (fst (add_batch e i entries metas s)) @
             map (\<lambda>k. id_base + int k) [i + batch_size..<length valid_docs] \<and>
         get_or [] (snd (add_batches e id_base batch_size (i + batch_size) valid_docs
                 (add_batch e i entries metas s))) =
           get_or [] (snd (add_batch e i entries metas s)) @
             map (\<lambda>d. Record (clean_meta e d)) (drop (i + batch_size) valid_docs)"
    proof (rule "1.IH")
      show "\<not> (batch_size = 0 \<or> length valid_docs \<le> i)"
        using "1.prems"(1) i by simp
      show "embed_batch e (id_base + int i) 0 (take batch_size (drop i valid_docs))
          = embed_batch e (id_base + int i) 0 (take batch_size (drop i valid_docs))" ..
      show "(entries, metas) = embed_batch e (id_base + int i) 0 (take batch_size (drop i valid_docs))"
        using eb unfolding batch_def by simp
    qed (use "1.prems" in simp_all)
    have id_list: "map fst entries @ map (\<lambda>k. id_base + int k) [i + batch_size..<length valid_docs]
        = map (\<lambda>k. id_base + int k) [i..<length valid_docs]"
    proof -
      have "map fst entries = map (\<lambda>k. id_base + int k) [i..<i + length batch]"
        using ids by (simp only: ids_shift)
      then have "map fst entries @ map (\<lambda>k. id_base + int k) [i + batch_size..<length valid_docs]
          = map (\<lambda>k. id_base + int k) ([i..<i + length batch] @ [i + batch_size..<length valid_docs])"
        by simp
      also have "[i..<i + length batch] @ [i + batch_size..<length valid_docs] = [i..<length valid_docs]"
        unfolding len using i "1.prems"(1) by (rule upt_batches)
      finally show ?thesis .
    qed
    have line_list: "batch @ drop (i + batch_size) valid_docs = drop i valid_docs"
    proof -
      have "take batch_size (drop i valid_docs) @ drop batch_size (drop i valid_docs)
          = drop i valid_docs"
        by (rule append_take_drop_id)
      then show ?thesis unfolding batch_def by (simp add: add.commute)
    qed
    have "metas @ map (\<lambda>d. Record (clean_meta e d)) (drop (i + batch_size) valid_docs)
          = map (\<lambda>d. Record (clean_meta e d)) (drop i valid_docs)"
      unfolding metas using line_list by (metis map_append)
    with ih id_list show ?thesis
      unfolding step ab by (simp add: get_or_def)
  qed
qed

lemma add_batch_counts:
  assumes "\<not> add_with_ids_raises e i" and "\<not> meta_append_raises e i"
    and "length entries = length metas"
  shows "length (fst (add_batch e i entries metas s)) + length (get_or [] (snd s)) =
         length (fst s) + length (get_or [] (snd (add_batch e i entries metas s)))"
  using assms by (simp add: add_batch_def get_or_def)

lemma add_batches_counts:
  assumes "\<forall>i. \<not> add_with_ids_raises e i" and "\<forall>i. \<not> meta_append_raises e i"
  shows "length (fst (add_batches e id_base batch_size i valid_docs s)) + length (get_or [] (snd s)) =
         length (fst s) + length (get_or [] (snd (add_batches e id_base batch_size i valid_docs s)))"
  using assms
proof (induction e id_base batch_size i valid_docs s rule: add_batches.induct)
  case (1 e id_base batch_size i valid_docs s)
  show ?case
  proof (cases "batch_size = 0 \<or> length valid_docs \<le> i")
    case True
    then have "add_batches e id_base batch_size i valid_docs s = s"
      by (subst add_batches.simps) simp
    then show ?thesis by simp
  next
    case False
    obtain entries metas where
      eb: "embed_batch e (id_base + int i) 0 (take batch_size (drop i valid_docs)) = (entries, metas)"
      by (cases "embed_batch e (id_base + int i) 0 (take batch_size (drop i valid_docs))")
    have "length entries = length metas"
      using embed_batch_lengths [of e "id_base + int i" 0 "take batch_size (drop i valid_docs)"] eb
      by simp
    with "1.prems" have one:
      "length (fst (add_batch e i entries metas s)) + length (get_or [] (snd s)) =
       length (fst s) + length (get_or [] (snd (add_batch e i entries metas s)))"
      by (intro add_batch_counts) simp_all
    have step: "add_batches e id_base batch_size i valid_docs s =
        add_batches e id_base batch_size (i + batch_size) valid_docs
          (add_batch e i entries metas s)"
      using False eb by (intro add_batches_step) simp_all
    have "length (fst (add_batches e id_base batch_size (i + batch_size) valid_docs
              (add_batch e i entries metas s))) + length (get_or [] (snd (add_batch e i entries metas s))) =
          length (fst (add_batch e i entries metas s)) +
          length (get_or [] (snd (add_batches e id_base batch_size (i + batch_size) valid_docs
              (add_batch e i entries metas s))))"
    proof (rule "1.IH")
      show "\<not> (batch_size = 0 \<or> length valid_docs \<le> i)" by (rule False)
      show "embed_batch e (id_base + int i) 0 (take batch_size (drop i valid_docs))
          = embed_batch e (id_base + int i) 0 (take batch_size (drop i valid_docs))" ..
      show "(entries, metas) = embed_batch e (id_base + int i) 0 (take batch_size (drop i valid_docs))"
        using eb by simp
    qed (use "1.prems" in simp_all)
    with one show ?thesis unfolding step by simp
  qed
qed

lemma lines_of_get_or: "lines_of st = get_or [] (meta_file st)"
  by (simp add: lines_of_def get_or_def)

lemma load_index_ok: "\<not> read_index_raises e \<Longrightarrow> load_index e st = get_or [] (index_file st)"
  by (simp add: load_index_def get_or_def split: option.splits)

lemma add_documents_nothing_valid:
  "filter validate_document docs = [] \<Longrightarrow> add_documents e docs batch_size st = (None, st)"
  by (simp add: add_documents_def)

lemma add_documents_run:
  assumes "io_ok e" and "0 < batch_size" and "filter validate_document docs \<noteq> []"
  shows "add_documents e docs batch_size st =
    (None, st\<lparr>meta_file := snd (add_batches e (int (length (lines_of st))) (nat batch_size) 0
                  (filter validate_document docs) (get_or [] (index_file st), meta_file st)),
              index_file := Some (fst (add_batches e (int (length (lines_of st))) (nat batch_size) 0
                  (filter validate_document docs) (get_or [] (index_file st), meta_file st)))\<rparr>)"
proof -
  from assms(3) have "docs \<noteq> []" by auto
  with assms show ?thesis
    by (simp add: add_documents_def Let_def io_ok_def load_index_ok)
qed



lemma add_documents_stores_valid:
  assumes "io_ok e" and "0 < batch_size"
    and "\<forall>d\<in>set docs. validate_document d \<longrightarrow> embed_document e d \<noteq> None"
  shows "lines_of (snd (add_documents e docs batch_size st)) =
           lines_of st @ map (\<lambda>d. Record (clean_meta e d)) (filter validate_document docs) \<and>
         map fst (get_or [] (index_file (snd (add_documents e docs batch_size st)))) =
           map fst (get_or [] (index_file st)) @
           map (\<lambda>k. int (length (lines_of st)) + int k) [0..<length (filter validate_document docs)]"
proof (cases "filter validate_document docs = []")
  case True
  then show ?thesis by (simp add: add_documents_nothing_valid)
next
  case False
  let ?valid = "filter validate_document docs"
  let ?s = "(get_or [] (index_file st), meta_file st)"
  let ?r = "add_batches e (int (length (lines_of st))) (nat batch_size) 0 ?valid ?s"
  have run: "add_documents e docs batch_size st =
      (None, st\<lparr>meta_file := snd ?r, index_file := Some (fst ?r)\<rparr>)"
    using assms(1,2) False by (rule add_documents_run)
  from assms(3) have all: "\<forall>d\<in>set ?valid. embed_document e d \<noteq> None" by simp
  from assms(1) have faults: "\<forall>i. \<not> add_with_ids_raises e i" "\<forall>i. \<not> meta_append_raises e i"
    by (simp_all add: io_ok_def)
  from assms(2) have "0 < nat batch_size" by simp
  from add_batches_all [OF this all faults, of "int (length (lines_of st))" 0 ?s]
  have "map fst (fst ?r) = map fst (get_or [] (index_file st)) @
          map (\<lambda>k. int (length (lines_of st)) + int k) [0..<length ?valid]"
    and "get_or [] (snd ?r) = get_or [] (meta_file st) @ map (\<lambda>d. Record (clean_meta e d)) ?valid"
    by simp_all
  then show ?thesis
    unfolding run by (simp add: lines_of_get_or get_or_def)
qed

lemma add_documents_keeps_alignment:
  assumes "io_ok e" and "0 < batch_size"
    and "\<forall>d\<in>set docs. validate_document d \<longrightarrow> embed_document e d \<noteq> None"
    and "id_aligned st"
  shows "id_aligned (snd (add_documents e docs batch_size st))"
proof -
  let ?n = "length (lines_of st)"
  let ?m = "length (filter validate_document docs)"
  let ?st' = "snd (add_documents e docs batch_size st)"
  from add_documents_stores_valid [OF assms(1-3), of st]
  have lines: "length (lines_of ?st') = ?n + ?m"
    and ids: "map fst (get_or [] (index_file ?st')) =
      map fst (get_or [] (index_file st)) @ map (\<lambda>k. int ?n + int k) [0..<?m]"
    by simp_all
  have "map (\<lambda>k. int ?n + int k) [0..<?m] = map int [?n..<?n + ?m]"
    using ids_shift [of 0 ?n ?m] by simp
  moreover have "[0..<?n] @ [?n..<?n + ?m] = [0..<?n + ?m]"
    using upt_add_eq_append [of 0 ?n ?m] by simp
  ultimately have "map fst (get_or [] (index_file ?st')) = map int [0..<?n + ?m]"
    using ids assms(4) unfolding id_aligned_def by (metis map_append)
  with lines show ?thesis by (simp add: id_aligned_def)
qed

lemma add_documents_counts:
  assumes "io_ok e"
    and "length (get_or [] (index_file st)) = length (lines_of st)"
  shows "length (get_or [] (index_file (snd (add_documents e docs batch_size st))))
       = length (lines_of (snd (add_documents e docs batch_size st)))"
proof -
  from assms(1) have faults: "\<forall>i. \<not> add_with_ids_raises e i" "\<forall>i. \<not> meta_append_raises e i"
    by (simp_all add: io_ok_def)
  let ?s = "(get_or [] (index_file st), meta_file st)"
  let ?r = "add_batches e (int (length (lines_of st))) (nat batch_size) 0
              (filter validate_document docs) ?s"
  from add_batches_counts [OF faults, of "int (length (lines_of st))" "nat batch_size" 0
      "filter validate_document docs" ?s] assms(2)
  have "length (fst ?r) = length (get_or [] (snd ?r))"
    by (simp add: lines_of_get_or)
  with assms show ?thesis
    by (simp add: add_documents_def Let_def io_ok_def load_index_ok lines_of_get_or get_or_def)
qed





text \<open>
  Claim C1 on the code. The first document has a blank title and summary: it is valid
  and its text to embed is blank, so the loop skips it, and the second document gets the
  id 1 while its metadata is line 0 of the log. There are as many vectors as lines, but
  the id of the vector is not the position of its line, and the candidate with that id
  is dropped by the search as out of range.
\<close>

theorem add_documents_skip_breaks_alignment:
  "id_aligned empty_store \<and>
   validate_document blank_doc \<and>
   embed_document example_env blank_doc = None \<and>
   fst (add_documents example_env [blank_doc, february_doc] 50 empty_store) = None \<and>
   map fst (get_or [] (index_file
      (snd (add_documents example_env [blank_doc, february_doc] 50 empty_store)))) = [1] \<and>
   lines_of (snd (add_documents example_env [blank_doc, february_doc] 50 empty_store))
     = [Record (clean_meta example_env february_doc)] \<and>
   \<not> id_aligned (snd (add_documents example_env [blank_doc, february_doc] 50 empty_store)) \<and>
   collect_hits example_env no_filters 5 (1 / 10)
     (lines_of (snd (add_documents example_env [blank_doc, february_doc] 50 empty_store)))
     [(1, 9 / 10)] [] = []"
  by code_simp

section \<open>Properties of the rebuild\<close>






section \<open>Properties of the answer path\<close>



end
